theory Spec2Isabelle
  imports Main
begin

section \<open>Stations and directory entries\<close>

text \<open>
  Modelled from the spec: the declarations of \<open>RadioStation\<close> and \<open>RadioBrowserStation\<close>
  (file \<open>types.ts\<close>) are not part of the sources at hand; the fields are those that
  \<open>radio-player.ts\<close> reads and writes, and the spec's data model (a name, a stream URL,
  and optional genre, country, bitrate and codec). The declarations are erased when the
  program runs and a directory entry is whatever the JSON response held, so a field that
  the mapping of a search result only forwards is a \<open>string option\<close>, with \<open>None\<close> for
  an absent (\<open>undefined\<close> or \<open>null\<close>) field. The prefix \<open>rb_\<close> keeps the fields
  \<open>name\<close>, \<open>url\<close>, \<open>country\<close>, \<open>bitrate\<close> and \<open>codec\<close> of a directory entry apart
  from those of a station.
\<close>

record RadioStation =
  name :: string
  url :: "string option"
  genre :: "string option"
  country :: "string option"
  bitrate :: "int option"
  codec :: "string option"

record RadioBrowserStation =
  rb_name :: string
  rb_url :: "string option"
  url_resolved :: "string option"
  tags :: "string option"
  rb_country :: "string option"
  rb_bitrate :: "int option"
  rb_codec :: "string option"
  lastcheckok :: int

text \<open>
  JavaScript's \<open>a || b\<close> on two optional strings: \<open>a\<close> when it is truthy, that is a
  non-empty string, and \<open>b\<close> otherwise, whatever \<open>b\<close> is.
\<close>

definition truthy :: "string option \<Rightarrow> bool" where
  "truthy v = (case v of None \<Rightarrow> False | Some s \<Rightarrow> s \<noteq> [])"

definition js_or :: "string option \<Rightarrow> string option \<Rightarrow> string option" where
  "js_or a b = (if truthy a then a else b)"

text \<open>The object literal that both searches build from one directory entry.\<close>

definition to_station :: "RadioBrowserStation \<Rightarrow> RadioStation" where
  "to_station e =
     \<lparr> name = rb_name e,
       url = js_or (url_resolved e) (rb_url e),
       genre = tags e,
       country = rb_country e,
       bitrate = rb_bitrate e,
       codec = rb_codec e \<rparr>"

section \<open>The directory searches\<close>

text \<open>
  The request that \<open>axios.get\<close> receives: the endpoint, the parameters and the timeout.
  \<open>searchStations\<close> sends the query as \<open>name\<close>, \<open>searchByGenre\<close> as \<open>tag\<close>.
\<close>

datatype search_key = ByName string | ByTag string

record request =
  endpoint :: string
  key :: search_key
  limit :: int
  hidebroken :: bool
  order :: string
  reverse :: bool
  timeout :: nat

definition search_request :: "search_key \<Rightarrow> int \<Rightarrow> request" where
  "search_request k l =
     \<lparr> endpoint = ''http://all.api.radio-browser.info/json/stations/search'',
       key = k, limit = l, hidebroken = True, order = ''votes'', reverse = True,
       timeout = 5000 \<rparr>"

text \<open>
  The directory is the environment: a function from the request to what the awaited call
  gives, \<open>None\<close> when it throws (network failure, timeout, a status outside 2xx, a body
  that is no list) and \<open>Some\<close> of the entries of \<open>response.data\<close> otherwise.
\<close>

type_synonym directory = "request \<Rightarrow> RadioBrowserStation list option"

datatype msg =
    PlaybackError string
  | PlaybackStopped
  | NowPlaying
  | FailedToStart
  | NeitherFound
  | VlcPlaybackError string
  | FailedToStartVlc
  | SearchFailed
  | GenreSearchFailed

text \<open>
  Both searches return the messages written to the console and the resolved list. The
  \<open>limit\<close> argument occurs in the request only.
\<close>

definition searchStations :: "directory \<Rightarrow> string \<Rightarrow> int \<Rightarrow> msg list \<times> RadioStation list" where
  "searchStations axios_get query l =
     (case axios_get (search_request (ByName query) l) of
        None \<Rightarrow> ([SearchFailed], [])
      | Some data \<Rightarrow> ([], map to_station (filter (\<lambda>station. lastcheckok station = 1) data)))"

definition searchByGenre :: "directory \<Rightarrow> string \<Rightarrow> int \<Rightarrow> msg list \<times> RadioStation list" where
  "searchByGenre axios_get g l =
     (case axios_get (search_request (ByTag g) l) of
        None \<Rightarrow> ([GenreSearchFailed], [])
      | Some data \<Rightarrow> ([], map to_station (filter (\<lambda>station. lastcheckok station = 1) data)))"

section \<open>Subprocesses, signals and the environment\<close>

datatype signal = SIGTERM | SIGKILL

datatype backend = Mpv | Vlc

text \<open>
  The handle that \<open>spawn\<close> returns. \<open>pid\<close> is \<open>undefined\<close> (\<open>None\<close>) when the
  subprocess could not be launched. \<open>killed\<close> is the flag of the runtime's handle: it starts
  false and only the handle's own \<open>kill\<close> method sets it. \<open>radio-player.ts\<close> never calls
  that method (it signals through \<open>process.kill\<close>), and an exit of the subprocess does not
  touch the flag.
\<close>

record ChildProcess =
  pid :: "int option"
  killed :: bool

datatype spawn_outcome = SpawnThrows | Spawned "int option"

text \<open>The two callbacks that \<open>killAllProcesses\<close> hands to \<open>setTimeout\<close>.\<close>

datatype timer = KillCurrent | KillTracked int

text \<open>
  Everything the player does to the outside, in the order it does it. \<open>Kill\<close> is a call of
  \<open>process.kill\<close>, recorded whether it succeeds or throws; \<open>Spawn\<close> is a call of \<open>spawn\<close>
  with what it gave.
\<close>

datatype effect =
    Spawn backend "string option list" spawn_outcome
  | Kill int signal
  | SetTimeout timer nat
  | Exec string
  | Log msg

text \<open>
  The operating system is the environment. Each answer may depend on all that has happened
  so far: whether \<open>spawn\<close> throws or returns a handle and with which \<open>pid\<close>, whether
  \<open>process.kill\<close> throws (no such process, no permission), and whether \<open>execSync\<close> throws
  (\<open>None\<close>: the command is missing or ends with a non-zero status, as \<open>pgrep\<close> does when
  nothing matches) or returns the command's output.
\<close>

record env =
  spawn_result :: "effect list \<Rightarrow> backend \<Rightarrow> string option list \<Rightarrow> spawn_outcome"
  kill_throws :: "effect list \<Rightarrow> int \<Rightarrow> signal \<Rightarrow> bool"
  exec_sync :: "effect list \<Rightarrow> string \<Rightarrow> string option"

text \<open>
  The three fields of the class, and \<open>trace\<close>: a record of the effects so far, which the
  class does not hold and which no operation reads (only the environment does).
\<close>

record RadioPlayer =
  currentProcess :: "ChildProcess option"
  currentStation :: "RadioStation option"
  processIds :: "int list"
  trace :: "effect list"

definition initial :: RadioPlayer where
  "initial = \<lparr> currentProcess = None, currentStation = None, processIds = [], trace = [] \<rparr>"

datatype exn = SpawnFailed | KillFailed | ExecFailed | BadPid

text \<open>
  A statement either completes with the new state or throws, and then the state at the
  throw goes with the exception: \<open>try_catch\<close> resumes from it.
\<close>

type_synonym outcome = "(exn \<times> RadioPlayer) + RadioPlayer"

definition emit :: "effect \<Rightarrow> RadioPlayer \<Rightarrow> RadioPlayer" where
  "emit e p = p\<lparr>trace := trace p @ [e]\<rparr>"

definition skip :: "RadioPlayer \<Rightarrow> outcome" where
  "skip p = Inr p"

definition then_do :: "(RadioPlayer \<Rightarrow> outcome) \<Rightarrow> (RadioPlayer \<Rightarrow> outcome) \<Rightarrow> RadioPlayer \<Rightarrow> outcome" where
  "then_do f g p = (case f p of Inl x \<Rightarrow> Inl x | Inr p' \<Rightarrow> g p')"

definition try_catch :: "(RadioPlayer \<Rightarrow> outcome) \<Rightarrow> (exn \<Rightarrow> RadioPlayer \<Rightarrow> outcome) \<Rightarrow> RadioPlayer \<Rightarrow> outcome" where
  "try_catch f h p = (case f p of Inl (e, p') \<Rightarrow> h e p' | Inr p' \<Rightarrow> Inr p')"

definition console_log :: "msg \<Rightarrow> RadioPlayer \<Rightarrow> outcome" where
  "console_log m p = Inr (emit (Log m) p)"

definition set_timeout :: "timer \<Rightarrow> RadioPlayer \<Rightarrow> outcome" where
  "set_timeout t p = Inr (emit (SetTimeout t 1000) p)"

definition process_kill :: "env \<Rightarrow> int \<Rightarrow> signal \<Rightarrow> RadioPlayer \<Rightarrow> outcome" where
  "process_kill ev n sg p =
     (if kill_throws ev (trace p) n sg then Inl (KillFailed, emit (Kill n sg) p)
      else Inr (emit (Kill n sg) p))"

text \<open>\<open>if (x.pid)\<close>: a number is truthy unless it is zero, \<open>undefined\<close> is not.\<close>

definition kill_group_of :: "env \<Rightarrow> int option \<Rightarrow> signal \<Rightarrow> RadioPlayer \<Rightarrow> outcome" where
  "kill_group_of ev q sg =
     (case q of None \<Rightarrow> skip | Some n \<Rightarrow> if n \<noteq> 0 then process_kill ev (- n) sg else skip)"

section \<open>Stopping\<close>

text \<open>The first half of \<open>killAllProcesses\<close>: the current handle.\<close>

definition kill_current :: "env \<Rightarrow> bool \<Rightarrow> RadioPlayer \<Rightarrow> outcome" where
  "kill_current ev force p =
     (case currentProcess p of
        None \<Rightarrow> Inr p
      | Some cp \<Rightarrow>
          if killed cp then Inr p
          else try_catch
                 (if force then kill_group_of ev (pid cp) SIGKILL
                  else then_do (kill_group_of ev (pid cp) SIGTERM) (set_timeout KillCurrent))
                 (\<lambda>e. skip) p)"

text \<open>The second half: the loop over the tracked identifiers, each in its own \<open>try\<close>.\<close>

fun kill_tracked :: "env \<Rightarrow> bool \<Rightarrow> int list \<Rightarrow> RadioPlayer \<Rightarrow> outcome" where
  "kill_tracked ev force [] p = Inr p"
| "kill_tracked ev force (n # ns) p =
     then_do
       (try_catch
          (if force then process_kill ev (- n) SIGKILL
           else then_do (process_kill ev (- n) SIGTERM) (set_timeout (KillTracked n)))
          (\<lambda>e. skip))
       (kill_tracked ev force ns) p"

definition killAllProcesses :: "env \<Rightarrow> bool \<Rightarrow> RadioPlayer \<Rightarrow> outcome" where
  "killAllProcesses ev force =
     then_do (kill_current ev force)
       (then_do (\<lambda>p. kill_tracked ev force (processIds p) p)
          (\<lambda>p. Inr (p\<lparr>processIds := []\<rparr>)))"

definition stop :: "env \<Rightarrow> RadioPlayer \<Rightarrow> outcome" where
  "stop ev =
     then_do (killAllProcesses ev False)
       (\<lambda>p. Inr (p\<lparr>currentProcess := None, currentStation := None\<rparr>))"

section \<open>The orphan sweep\<close>

text \<open>
  \<open>trim\<close> removes white space at both ends and \<open>split('\n')\<close> cuts at every line feed;
  the empty string splits into one empty line. A \<open>char\<close> is a byte here, so the white
  space is the ASCII one: space, tab, line feed, vertical tab, form feed, carriage return.
\<close>

definition is_space :: "char \<Rightarrow> bool" where
  "is_space c = (c \<in> set [CHR '' '', CHR 0x09, CHR 0x0A, CHR 0x0B, CHR 0x0C, CHR 0x0D])"

definition trim :: "string \<Rightarrow> string" where
  "trim s = rev (dropWhile is_space (rev (dropWhile is_space s)))"

fun split_on :: "char \<Rightarrow> string \<Rightarrow> string list" where
  "split_on sep [] = [[]]"
| "split_on sep (c # cs) =
     (if c = sep then [] # split_on sep cs
      else (case split_on sep cs of [] \<Rightarrow> [[c]] | l # ls \<Rightarrow> (c # l) # ls))"

text \<open>
  \<open>parseInt\<close> with no radix: leading white space is skipped, then an optional sign, then
  an optional \<open>0x\<close> that selects base 16, then the longest run of digits of the base.
  No digit at all gives \<open>NaN\<close>, here \<open>None\<close>. The value is the exact integer (a run of
  digits beyond 2^53 would be rounded by the runtime; an identifier never is that long).
\<close>

definition digit_of :: "char \<Rightarrow> nat option" where
  "digit_of c =
     (let n = (of_char c :: nat) in
      if 48 \<le> n \<and> n \<le> 57 then Some (n - 48)
      else if 97 \<le> n \<and> n \<le> 102 then Some (n - 87)
      else if 65 \<le> n \<and> n \<le> 70 then Some (n - 55)
      else None)"

definition is_digit :: "nat \<Rightarrow> char \<Rightarrow> bool" where
  "is_digit r c = (case digit_of c of None \<Rightarrow> False | Some d \<Rightarrow> d < r)"

definition digits_value :: "nat \<Rightarrow> string \<Rightarrow> nat" where
  "digits_value r z = foldl (\<lambda>a c. a * r + (case digit_of c of None \<Rightarrow> 0 | Some d \<Rightarrow> d)) 0 z"

definition parse_digits :: "int \<Rightarrow> string \<Rightarrow> int option" where
  "parse_digits sg s =
     (let (r, s') = (case s of
                       a # b # rest \<Rightarrow>
                         if a = CHR ''0'' \<and> (b = CHR ''x'' \<or> b = CHR ''X'') then (16, rest)
                         else (10, s)
                     | _ \<Rightarrow> (10, s));
          z = takeWhile (is_digit r) s'
      in if z = [] then None else Some (sg * int (digits_value r z)))"

definition parseInt :: "string \<Rightarrow> int option" where
  "parseInt s =
     (case dropWhile is_space s of
        [] \<Rightarrow> None
      | c # cs \<Rightarrow>
          if c = CHR ''-'' then parse_digits (- 1) cs
          else if c = CHR ''+'' then parse_digits 1 cs
          else parse_digits 1 (c # cs))"

text \<open>
  \<open>process.kill(parseInt(pid), 'SIGKILL')\<close>: \<open>process.kill\<close> rejects \<open>NaN\<close> with a type
  error before any signal is sent.
\<close>

definition kill_parsed :: "env \<Rightarrow> int option \<Rightarrow> RadioPlayer \<Rightarrow> outcome" where
  "kill_parsed ev q p =
     (case q of None \<Rightarrow> Inl (BadPid, p) | Some n \<Rightarrow> process_kill ev n SIGKILL p)"

fun kill_lines :: "env \<Rightarrow> string list \<Rightarrow> RadioPlayer \<Rightarrow> outcome" where
  "kill_lines ev [] p = Inr p"
| "kill_lines ev (l # ls) p =
     then_do
       (if l \<noteq> [] then try_catch (kill_parsed ev (parseInt l)) (\<lambda>e. skip) else skip)
       (kill_lines ev ls) p"

definition run_pgrep :: "env \<Rightarrow> string \<Rightarrow> RadioPlayer \<Rightarrow> outcome" where
  "run_pgrep ev cmd p =
     (case exec_sync ev (trace p) cmd of
        None \<Rightarrow> Inl (ExecFailed, emit (Exec cmd) p)
      | Some out \<Rightarrow> kill_lines ev (split_on (CHR 0x0A) (trim out)) (emit (Exec cmd) p))"

definition killOrphanedProcesses :: "env \<Rightarrow> RadioPlayer \<Rightarrow> outcome" where
  "killOrphanedProcesses ev =
     try_catch
       (then_do (try_catch (run_pgrep ev ''pgrep mpv'') (\<lambda>e. skip))
                (try_catch (run_pgrep ev ''pgrep vlc'') (\<lambda>e. skip)))
       (\<lambda>e. skip)"

definition forceStop :: "env \<Rightarrow> RadioPlayer \<Rightarrow> outcome" where
  "forceStop ev =
     then_do (killAllProcesses ev True)
       (then_do (killOrphanedProcesses ev)
          (\<lambda>p. Inr (p\<lparr>currentProcess := None, currentStation := None\<rparr>)))"

section \<open>Starting\<close>

definition mpv_args :: "string option \<Rightarrow> string option list" where
  "mpv_args u =
     [Some ''--no-video'', Some ''--no-terminal'', Some ''--really-quiet'', Some ''--volume=70'', u]"

definition vlc_args :: "string option \<Rightarrow> string option list" where
  "vlc_args u =
     [Some ''--intf'', Some ''dummy'', Some ''--extraintf'', Some ''http'',
      Some ''--http-password'', Some ''vlc'', u]"

text \<open>
  \<open>this.currentProcess = spawn(...)\<close> followed by the push of a truthy \<open>pid\<close>. When
  \<open>spawn\<close> throws, the assignment does not happen. The two \<open>on\<close> calls that follow only
  register the handlers, which are \<open>handle\<close> below.
\<close>

definition spawn_and_track :: "env \<Rightarrow> backend \<Rightarrow> string option list \<Rightarrow> RadioPlayer \<Rightarrow> outcome" where
  "spawn_and_track ev b args p =
     (let r = spawn_result ev (trace p) b args;
          p1 = emit (Spawn b args r) p
      in case r of
           SpawnThrows \<Rightarrow> Inl (SpawnFailed, p1)
         | Spawned q \<Rightarrow>
             (let p2 = p1\<lparr>currentProcess := Some \<lparr>pid = q, killed = False\<rparr>\<rparr>
              in case q of
                   None \<Rightarrow> Inr p2
                 | Some n \<Rightarrow> if n \<noteq> 0 then Inr (p2\<lparr>processIds := processIds p2 @ [n]\<rparr>)
                             else Inr p2))"

definition tryVLC :: "env \<Rightarrow> RadioStation \<Rightarrow> RadioPlayer \<Rightarrow> outcome" where
  "tryVLC ev station =
     try_catch (spawn_and_track ev Vlc (vlc_args (url station)))
       (\<lambda>e. console_log FailedToStartVlc)"

text \<open>
  \<open>play\<close> up to its \<open>await\<close>. The flag tells whether the call is now waiting for the
  one-second timer (the subprocess was spawned) or has returned already (the \<open>catch\<close>
  branch, which does not wait).
\<close>

definition play_begin :: "env \<Rightarrow> RadioStation \<Rightarrow> RadioPlayer \<Rightarrow> (exn \<times> RadioPlayer) + (bool \<times> RadioPlayer)" where
  "play_begin ev station p =
     (case stop ev p of
        Inl x \<Rightarrow> Inl x
      | Inr p1 \<Rightarrow>
          (case spawn_and_track ev Mpv (mpv_args (url station)) (p1\<lparr>currentStation := Some station\<rparr>) of
             Inr p2 \<Rightarrow> Inr (True, p2)
           | Inl (e, p2) \<Rightarrow>
               (case then_do (console_log FailedToStart) (tryVLC ev station) p2 of
                  Inl x \<Rightarrow> Inl x
                | Inr p3 \<Rightarrow> Inr (False, p3))))"

text \<open>The rest of \<open>play\<close>, after the timer.\<close>

definition play_end :: "RadioPlayer \<Rightarrow> outcome" where
  "play_end p =
     (case currentProcess p of
        None \<Rightarrow> Inr p
      | Some cp \<Rightarrow> if \<not> killed cp then console_log NowPlaying p else Inr p)"

section \<open>Events\<close>

text \<open>
  What the event loop may run while a call waits or after it has returned: the \<open>error\<close>
  handler that \<open>play (station)\<close> put on its subprocess, the one that \<open>tryVLC\<close> put on its
  subprocess, the \<open>exit\<close> handler (the same text in both), and the two timer callbacks.
\<close>

datatype event =
    MpvError RadioStation string
  | VlcError string
  | Exited "int option"
  | TimerFired timer

fun starts_with :: "string \<Rightarrow> string \<Rightarrow> bool" where
  "starts_with s [] = True"
| "starts_with [] (c # cs) = False"
| "starts_with (a # as) (c # cs) = (a = c \<and> starts_with as cs)"

fun str_includes :: "string \<Rightarrow> string \<Rightarrow> bool" where
  "str_includes [] t = (t = [])"
| "str_includes (a # as) t = (starts_with (a # as) t \<or> str_includes as t)"

fun handle :: "env \<Rightarrow> event \<Rightarrow> RadioPlayer \<Rightarrow> outcome" where
  "handle ev (MpvError station m) p =
     (if str_includes m ''ENOENT'' then tryVLC ev station p
      else console_log (PlaybackError m) p)"
| "handle ev (VlcError m) p =
     (if str_includes m ''ENOENT'' then console_log NeitherFound p
      else console_log (VlcPlaybackError m) p)"
| "handle ev (Exited code) p =
     (case code of
        None \<Rightarrow> Inr p
      | Some c \<Rightarrow> if c \<noteq> 0 then console_log PlaybackStopped p else Inr p)"
| "handle ev (TimerFired KillCurrent) p =
     (case currentProcess p of
        None \<Rightarrow> Inr p
      | Some cp \<Rightarrow>
          (case pid cp of
             None \<Rightarrow> Inr p
           | Some n \<Rightarrow>
               if \<not> killed cp \<and> n \<noteq> 0
               then try_catch (process_kill ev (- n) SIGKILL) (\<lambda>e. skip) p
               else Inr p))"
| "handle ev (TimerFired (KillTracked n)) p =
     try_catch (process_kill ev (- n) SIGKILL) (\<lambda>e. skip) p"

fun run_events :: "env \<Rightarrow> event list \<Rightarrow> RadioPlayer \<Rightarrow> outcome" where
  "run_events ev [] p = Inr p"
| "run_events ev (e # es) p = then_do (handle ev e) (run_events ev es) p"

text \<open>
  A whole call of \<open>play\<close>: the events are those that the event loop delivers while the
  call waits for its timer.
\<close>

definition play :: "env \<Rightarrow> RadioStation \<Rightarrow> event list \<Rightarrow> RadioPlayer \<Rightarrow> outcome" where
  "play ev station evs p =
     (case play_begin ev station p of
        Inl x \<Rightarrow> Inl x
      | Inr (waiting, p1) \<Rightarrow>
          if waiting then then_do (run_events ev evs) play_end p1 else Inr p1)"

section \<open>Queries\<close>

definition getCurrentStation :: "RadioPlayer \<Rightarrow> RadioStation option" where
  "getCurrentStation p = currentStation p"

definition isPlaying :: "RadioPlayer \<Rightarrow> bool" where
  "isPlaying p = (case currentProcess p of None \<Rightarrow> False | Some cp \<Rightarrow> \<not> killed cp)"

section \<open>The states a player can be in\<close>

text \<open>
  A player starts with no process, no station and no identifier, and changes only through
  its public operations and the callbacks it registered. A call of \<open>play\<close> is its two halves
  with anything in between.
\<close>

inductive reachable :: "RadioPlayer \<Rightarrow> bool" where
  fresh: "reachable initial"
| after_stop: "reachable p \<Longrightarrow> stop ev p = Inr p' \<Longrightarrow> reachable p'"
| after_forceStop: "reachable p \<Longrightarrow> forceStop ev p = Inr p' \<Longrightarrow> reachable p'"
| after_play_begin: "reachable p \<Longrightarrow> play_begin ev station p = Inr (w, p') \<Longrightarrow> reachable p'"
| after_play_end: "reachable p \<Longrightarrow> play_end p = Inr p' \<Longrightarrow> reachable p'"
| after_event: "reachable p \<Longrightarrow> handle ev e p = Inr p' \<Longrightarrow> reachable p'"

section \<open>Reading the trace\<close>

text \<open>
  What the properties below read off a trace: whether an effect is a call of \<open>spawn\<close>,
  the identifiers of the subprocesses that the calls of \<open>spawn\<close> in a trace returned, what
  was added to the trace between two states, how often the secondary backend was launched,
  and whether an effect belongs to the orphan sweep (a \<open>pgrep\<close> or a forced kill).
\<close>

fun is_spawn :: "effect \<Rightarrow> bool" where
  "is_spawn (Spawn b a r) = True"
| "is_spawn e = False"

fun spawned_pids :: "effect list \<Rightarrow> int list" where
  "spawned_pids [] = []"
| "spawned_pids (Spawn b a (Spawned (Some n)) # es) = n # spawned_pids es"
| "spawned_pids (e # es) = spawned_pids es"

definition effects_since :: "RadioPlayer \<Rightarrow> RadioPlayer \<Rightarrow> effect list" where
  "effects_since p p' = drop (length (trace p)) (trace p')"

fun vlc_spawns :: "effect list \<Rightarrow> nat" where
  "vlc_spawns [] = 0"
| "vlc_spawns (Spawn Vlc a r # es) = Suc (vlc_spawns es)"
| "vlc_spawns (e # es) = vlc_spawns es"

fun is_sweep :: "effect \<Rightarrow> bool" where
  "is_sweep (Exec c) = True"
| "is_sweep (Kill n SIGKILL) = True"
| "is_sweep e = False"

text \<open>
  The identifier that \<open>spawn_and_track\<close> pushes, if any; the invariant of the three fields
  (a handle is never marked killed, and without a handle no identifier is tracked); and
  what every step keeps: the trace only grows, the station stays, every tracked identifier
  was tracked before or comes from a \<open>spawn\<close> of the step, and the invariant is kept.
\<close>

definition truthy_pid :: "int option \<Rightarrow> int list" where
  "truthy_pid q = (case q of None \<Rightarrow> [] | Some n \<Rightarrow> if n \<noteq> 0 then [n] else [])"

definition tracked_ok :: "RadioPlayer \<Rightarrow> bool" where
  "tracked_ok p = (case currentProcess p of None \<Rightarrow> processIds p = [] | Some cp \<Rightarrow> \<not> killed cp)"

definition grows :: "RadioPlayer \<Rightarrow> RadioPlayer \<Rightarrow> effect list \<Rightarrow> bool" where
  "grows p p' t = (trace p' = trace p @ t
     \<and> currentStation p' = currentStation p
     \<and> set (processIds p') \<subseteq> set (processIds p) \<union> set (spawned_pids t)
     \<and> (tracked_ok p \<longrightarrow> tracked_ok p'))"

section \<open>Concrete inputs\<close>

text \<open>Directory entries and responses on which the properties below are run.\<close>

definition entry :: "string \<Rightarrow> string option \<Rightarrow> string option \<Rightarrow> int \<Rightarrow> RadioBrowserStation" where
  "entry n r u ok =
     \<lparr> rb_name = n, rb_url = u, url_resolved = r, tags = Some ''jazz'', rb_country = None,
       rb_bitrate = Some 128, rb_codec = Some ''MP3'', lastcheckok = ok \<rparr>"

definition three_entries :: "RadioBrowserStation list" where
  "three_entries =
     [entry ''One'' (Some ''http://one.example/r'') (Some ''http://one.example/u'') 1,
      entry ''Two'' (Some ''http://two.example/r'') (Some ''http://two.example/u'') 0,
      entry ''Three'' (Some []) (Some ''http://three.example/u'') 1]"

definition blank_entry :: RadioBrowserStation where
  "blank_entry = entry ''Blank'' (Some []) None 1"

text \<open>
  Stations, and three environments: one where every launch succeeds with a new identifier
  and every signal is delivered; one where neither player is installed (\<open>spawn\<close> returns
  a handle without \<open>pid\<close>) and every signal fails; one where \<open>spawn\<close> itself throws,
  every signal fails and \<open>pgrep mpv\<close> prints an identifier and a line that is no number.
\<close>

definition test_fm :: RadioStation where
  "test_fm = \<lparr> name = ''Test FM'', url = Some ''http://example.invalid/stream'', genre = None,
               country = None, bitrate = None, codec = None \<rparr>"

definition jazz_fm :: RadioStation where
  "jazz_fm = \<lparr> name = ''Jazz24'', url = Some ''http://live.str3am.com:2540/jazz24'',
               genre = Some ''Jazz'', country = None, bitrate = None, codec = None \<rparr>"

definition env_ok :: env where
  "env_ok = \<lparr> spawn_result = (\<lambda>h b a. Spawned (Some (4242 + int (length h)))),
              kill_throws = (\<lambda>h n s. False),
              exec_sync = (\<lambda>h c. None) \<rparr>"

definition env_absent :: env where
  "env_absent = \<lparr> spawn_result = (\<lambda>h b a. Spawned None),
                  kill_throws = (\<lambda>h n s. True),
                  exec_sync = (\<lambda>h c. None) \<rparr>"

definition env_broken :: env where
  "env_broken = \<lparr> spawn_result = (\<lambda>h b a. SpawnThrows),
                  kill_throws = (\<lambda>h n s. True),
                  exec_sync = (\<lambda>h c. if c = ''pgrep mpv'' then Some [CHR ''7'', CHR ''1'', CHR 0x0A, CHR ''x'', CHR 0x0A] else None) \<rparr>"

text \<open>
  The player after a \<open>play\<close> in which both launches threw, after a successful \<open>play\<close>
  of the first station, and after a \<open>play\<close> of the second station on top of that.
\<close>

definition failed_start :: RadioPlayer where
  "failed_start =
     \<lparr> currentProcess = None, currentStation = Some test_fm, processIds = [],
       trace = [Spawn Mpv (mpv_args (url test_fm)) SpawnThrows, Log FailedToStart,
                Spawn Vlc (vlc_args (url test_fm)) SpawnThrows, Log FailedToStartVlc] \<rparr>"

definition playing_4242 :: RadioPlayer where
  "playing_4242 =
     \<lparr> currentProcess = Some \<lparr>pid = Some 4242, killed = False\<rparr>,
       currentStation = Some test_fm, processIds = [4242],
       trace = [Spawn Mpv (mpv_args (url test_fm)) (Spawned (Some 4242)), Log NowPlaying] \<rparr>"

definition switched :: RadioPlayer where
  "switched =
     \<lparr> currentProcess = Some \<lparr>pid = Some 4248, killed = False\<rparr>,
       currentStation = Some jazz_fm, processIds = [4248],
       trace = [Spawn Mpv (mpv_args (url test_fm)) (Spawned (Some 4242)), Log NowPlaying,
                Kill (- 4242) SIGTERM, SetTimeout KillCurrent 1000,
                Kill (- 4242) SIGTERM, SetTimeout (KillTracked 4242) 1000,
                Spawn Mpv (mpv_args (url jazz_fm)) (Spawned (Some 4248)), Log NowPlaying] \<rparr>"

lemmas player_defs =
  play_def play_begin_def play_end_def stop_def forceStop_def killAllProcesses_def kill_current_def
  killOrphanedProcesses_def run_pgrep_def kill_parsed_def kill_group_of_def
  spawn_and_track_def tryVLC_def then_do_def try_catch_def skip_def console_log_def set_timeout_def
  process_kill_def emit_def mpv_args_def vlc_args_def initial_def isPlaying_def getCurrentStation_def
  Let_def

section \<open>Properties of the searches\<close>

text \<open>
  C8. Every entry of the directory's response whose \<open>lastcheckok\<close> is not 1 is left out
  of what \<open>searchStations\<close> and \<open>searchByGenre\<close> return: the result is the image of exactly
  the entries marked 1, in the order of the response, so of \<open>n\<close> entries with \<open>k\<close> of them
  not marked 1 it holds \<open>n - k\<close>.
\<close>

theorem search_excludes_not_ok:
  assumes "axios_get (search_request (ByName q) l) = Some data"
      and "axios_get (search_request (ByTag g) l') = Some data'"
  shows "snd (searchStations axios_get q l) = map to_station (filter (\<lambda>e. lastcheckok e = 1) data)
       \<and> length (snd (searchStations axios_get q l)) + length (filter (\<lambda>e. lastcheckok e \<noteq> 1) data) = length data
       \<and> snd (searchByGenre axios_get g l') = map to_station (filter (\<lambda>e. lastcheckok e = 1) data')
       \<and> length (snd (searchByGenre axios_get g l')) + length (filter (\<lambda>e. lastcheckok e \<noteq> 1) data') = length data'"
  using assms sum_length_filter_compl [of "\<lambda>e. lastcheckok e = 1" data]
    sum_length_filter_compl [of "\<lambda>e. lastcheckok e = 1" data']
  by (simp add: searchStations_def searchByGenre_def)

theorem search_excludes_not_ok_witness:
  "length (snd (searchStations (\<lambda>r. Some three_entries) ''jazz'' 20)) = 2
   \<and> length (snd (searchByGenre (\<lambda>r. Some three_entries) ''jazz'' 20)) = 2
   \<and> map name (snd (searchStations (\<lambda>r. Some three_entries) ''jazz'' 20)) = [''One'', ''Three'']"
  using search_excludes_not_ok [of "\<lambda>r. Some three_entries" "''jazz''" 20 three_entries "''jazz''" 20]
  by (simp add: three_entries_def entry_def to_station_def)

text \<open>
  C2, as stated: the result of a search is never longer than \<open>limit\<close>. It fails when the
  directory answers with more entries than it was asked for: here three entries, two of
  them marked 1, for a limit of 1.
\<close>

theorem search_exceeds_limit:
  "\<not> int (length (snd (searchStations (\<lambda>r. Some three_entries) ''jazz'' 1))) \<le> 1
   \<and> \<not> int (length (snd (searchByGenre (\<lambda>r. Some three_entries) ''jazz'' 1))) \<le> 1"
  by (simp add: searchStations_def searchByGenre_def three_entries_def entry_def)

text \<open>
  C2, amended. The limit is a parameter of the request and nothing else: the result of
  \<open>searchStations\<close> and \<open>searchByGenre\<close> is never longer than the directory's response, is
  empty when the request fails, and is at most \<open>limit\<close> long whenever the response is.
\<close>

theorem search_length_le_response:
  "(case axios_get (search_request (ByName q) l) of
      None \<Rightarrow> snd (searchStations axios_get q l) = []
    | Some data \<Rightarrow> length (snd (searchStations axios_get q l)) \<le> length data
                  \<and> (int (length data) \<le> l \<longrightarrow> int (length (snd (searchStations axios_get q l))) \<le> l))
   \<and> (case axios_get (search_request (ByTag g) l) of
      None \<Rightarrow> snd (searchByGenre axios_get g l) = []
    | Some data \<Rightarrow> length (snd (searchByGenre axios_get g l)) \<le> length data
                  \<and> (int (length data) \<le> l \<longrightarrow> int (length (snd (searchByGenre axios_get g l))) \<le> l))"
proof -
  have le: "\<And>data. length (filter (\<lambda>e. lastcheckok e = 1) data) \<le> length data"
    by simp
  have le': "int (length (filter (\<lambda>e. lastcheckok e = 1) data)) \<le> l"
    if "int (length data) \<le> l" for data :: "RadioBrowserStation list"
    using that le [of data] by linarith
  show ?thesis
    by (simp add: searchStations_def searchByGenre_def le' split: option.split)
qed

theorem search_length_le_response_witness:
  "int (length three_entries) \<le> 3
   \<and> int (length (snd (searchStations (\<lambda>r. Some three_entries) ''jazz'' 3))) \<le> 3
   \<and> int (length (snd (searchByGenre (\<lambda>r. Some three_entries) ''jazz'' 3))) \<le> 3
   \<and> snd (searchStations (\<lambda>r. None) ''jazz'' 3) = []"
  using search_length_le_response [of "\<lambda>r. Some three_entries" "''jazz''" 3 "''jazz''"]
    search_length_le_response [of "\<lambda>r. None" "''jazz''" 3 "''jazz''"]
  by (simp add: three_entries_def)

text \<open>
  C10, as stated: no returned station lacks its \<open>url\<close> when either field of the entry is
  present. It fails for an entry whose resolved URL is present but empty and whose raw
  \<open>url\<close> is absent: the empty string is falsy, so the absent field is what is returned.
\<close>

theorem search_url_absent:
  "map url (snd (searchStations (\<lambda>r. Some [blank_entry]) ''blank'' 20)) = [None]
   \<and> map url (snd (searchByGenre (\<lambda>r. Some [blank_entry]) ''blank'' 20)) = [None]
   \<and> url_resolved blank_entry = Some []"
  by (simp add: searchStations_def searchByGenre_def blank_entry_def entry_def to_station_def js_or_def truthy_def)

text \<open>
  C10, amended. For every entry that a search returns, the station's \<open>url\<close> is the entry's
  resolved URL when that is a non-empty string and the entry's raw \<open>url\<close> otherwise; it
  is absent exactly when the raw \<open>url\<close> is absent and the resolved URL is absent or empty.
\<close>

theorem search_url_choice:
  assumes "axios_get (search_request (ByName q) l) = Some data"
      and "axios_get (search_request (ByTag g) l') = Some data'"
  shows "map url (snd (searchStations axios_get q l)) =
           map (\<lambda>e. case url_resolved e of None \<Rightarrow> rb_url e | Some s \<Rightarrow> if s \<noteq> [] then Some s else rb_url e)
             (filter (\<lambda>e. lastcheckok e = 1) data)
       \<and> map (\<lambda>s. url s = None) (snd (searchStations axios_get q l)) =
           map (\<lambda>e. rb_url e = None \<and> (url_resolved e = None \<or> url_resolved e = Some []))
             (filter (\<lambda>e. lastcheckok e = 1) data)
       \<and> map url (snd (searchByGenre axios_get g l')) =
           map (\<lambda>e. case url_resolved e of None \<Rightarrow> rb_url e | Some s \<Rightarrow> if s \<noteq> [] then Some s else rb_url e)
             (filter (\<lambda>e. lastcheckok e = 1) data')
       \<and> map (\<lambda>s. url s = None) (snd (searchByGenre axios_get g l')) =
           map (\<lambda>e. rb_url e = None \<and> (url_resolved e = None \<or> url_resolved e = Some []))
             (filter (\<lambda>e. lastcheckok e = 1) data')"
proof -
  have u: "\<And>e. url (to_station e) =
      (case url_resolved e of None \<Rightarrow> rb_url e | Some s \<Rightarrow> if s \<noteq> [] then Some s else rb_url e)"
    by (simp add: to_station_def js_or_def truthy_def split: option.split)
  have a: "\<And>e. (url (to_station e) = None) =
      (rb_url e = None \<and> (url_resolved e = None \<or> url_resolved e = Some []))"
    by (auto simp: u split: option.splits)
  show ?thesis using assms
    by (simp add: searchStations_def searchByGenre_def comp_def a) (simp add: u)
qed

theorem search_url_choice_witness:
  "map url (snd (searchStations (\<lambda>r. Some three_entries) ''jazz'' 20)) =
     [Some ''http://one.example/r'', Some ''http://three.example/u'']
   \<and> map (\<lambda>s. url s = None) (snd (searchByGenre (\<lambda>r. Some [blank_entry]) ''jazz'' 20)) = [True]"
  using search_url_choice [of "\<lambda>r. Some three_entries" "''jazz''" 20 three_entries "''jazz''" 20]
    search_url_choice [of "\<lambda>r. Some [blank_entry]" "''jazz''" 20 "[blank_entry]" "''jazz''" 20]
  by (simp add: three_entries_def blank_entry_def entry_def)

section \<open>Stopping never throws\<close>

lemma try_kill:
  "try_catch (process_kill ev n sg) (\<lambda>e. skip) p = Inr (p\<lparr>trace := trace p @ [Kill n sg]\<rparr>)"
  by (simp add: try_catch_def process_kill_def skip_def emit_def)

lemma try_kill_group:
  "\<exists>t. try_catch (kill_group_of ev q sg) (\<lambda>e. skip) p = Inr (p\<lparr>trace := trace p @ t\<rparr>)
       \<and> (\<forall>e\<in>set t. \<not> is_spawn e)"
proof (cases "\<exists>n. q = Some n \<and> n \<noteq> 0")
  case True
  then obtain n where "q = Some n" "n \<noteq> 0" by blast
  then have "try_catch (kill_group_of ev q sg) (\<lambda>e. skip) p = Inr (p\<lparr>trace := trace p @ [Kill (- n) sg]\<rparr>)"
    using try_kill [of ev "- n" sg p] by (simp add: kill_group_of_def)
  then show ?thesis by (intro exI [of _ "[Kill (- n) sg]"]) simp
next
  case False
  then have "try_catch (kill_group_of ev q sg) (\<lambda>e. skip) p = Inr (p\<lparr>trace := trace p @ []\<rparr>)"
    by (cases q) (auto simp: kill_group_of_def try_catch_def skip_def)
  then show ?thesis by (intro exI [of _ "[]"]) simp
qed

lemma try_term_group:
  "\<exists>t. try_catch (then_do (kill_group_of ev q SIGTERM) (set_timeout KillCurrent)) (\<lambda>e. skip) p
          = Inr (p\<lparr>trace := trace p @ t\<rparr>)
       \<and> (\<forall>e\<in>set t. \<not> is_spawn e)"
proof (cases "\<exists>n. q = Some n \<and> n \<noteq> 0")
  case True
  then obtain n where q: "q = Some n" "n \<noteq> 0" by blast
  show ?thesis
  proof (cases "kill_throws ev (trace p) (- n) SIGTERM")
    case True
    with q have "try_catch (then_do (kill_group_of ev q SIGTERM) (set_timeout KillCurrent)) (\<lambda>e. skip) p
          = Inr (p\<lparr>trace := trace p @ [Kill (- n) SIGTERM]\<rparr>)"
      by (simp add: kill_group_of_def try_catch_def then_do_def process_kill_def skip_def emit_def)
    then show ?thesis by (intro exI [of _ "[Kill (- n) SIGTERM]"]) simp
  next
    case False
    with q have "try_catch (then_do (kill_group_of ev q SIGTERM) (set_timeout KillCurrent)) (\<lambda>e. skip) p
          = Inr (p\<lparr>trace := trace p @ [Kill (- n) SIGTERM, SetTimeout KillCurrent 1000]\<rparr>)"
      by (simp add: kill_group_of_def try_catch_def then_do_def process_kill_def skip_def emit_def
          set_timeout_def)
    then show ?thesis by (intro exI [of _ "[Kill (- n) SIGTERM, SetTimeout KillCurrent 1000]"]) simp
  qed
next
  case False
  then have "try_catch (then_do (kill_group_of ev q SIGTERM) (set_timeout KillCurrent)) (\<lambda>e. skip) p
          = Inr (p\<lparr>trace := trace p @ [SetTimeout KillCurrent 1000]\<rparr>)"
    by (cases q) (auto simp: kill_group_of_def try_catch_def skip_def then_do_def set_timeout_def emit_def)
  then show ?thesis by (intro exI [of _ "[SetTimeout KillCurrent 1000]"]) simp
qed

lemma kill_current_result:
  "\<exists>t. kill_current ev force p = Inr (p\<lparr>trace := trace p @ t\<rparr>)
       \<and> (\<forall>e\<in>set t. \<not> is_spawn e)
       \<and> (currentProcess p = None \<longrightarrow> t = [])"
proof (cases "currentProcess p")
  case None
  then have "kill_current ev force p = Inr (p\<lparr>trace := trace p @ []\<rparr>)"
    by (simp add: kill_current_def)
  with None show ?thesis by (intro exI [of _ "[]"]) simp
next
  case (Some cp)
  show ?thesis
  proof (cases "killed cp")
    case True
    with Some have "kill_current ev force p = Inr (p\<lparr>trace := trace p @ []\<rparr>)"
      by (simp add: kill_current_def)
    with Some show ?thesis by (intro exI [of _ "[]"]) simp
  next
    case False
    show ?thesis
    proof (cases force)
      case True
      with Some False show ?thesis
        using try_kill_group [of ev "pid cp" SIGKILL p] by (simp add: kill_current_def)
    next
      case nf: False
      with Some False show ?thesis
        using try_term_group [of ev "pid cp" p] by (simp add: kill_current_def)
    qed
  qed
qed

lemma kill_tracked_result:
  "\<exists>t. kill_tracked ev force ns p = Inr (p\<lparr>trace := trace p @ t\<rparr>)
       \<and> (\<forall>e\<in>set t. \<not> is_spawn e)
       \<and> (\<forall>n\<in>set ns. Kill (- n) (if force then SIGKILL else SIGTERM) \<in> set t)
       \<and> (ns = [] \<longrightarrow> t = [])"
proof (induction ns arbitrary: p)
  case Nil
  show ?case by (intro exI [of _ "[]"]) simp
next
  case (Cons n ns)
  let ?body = "try_catch
          (if force then process_kill ev (- n) SIGKILL
           else then_do (process_kill ev (- n) SIGTERM) (set_timeout (KillTracked n)))
          (\<lambda>e. skip)"
  have "\<exists>t1. ?body p = Inr (p\<lparr>trace := trace p @ t1\<rparr>) \<and> (\<forall>e\<in>set t1. \<not> is_spawn e)
           \<and> Kill (- n) (if force then SIGKILL else SIGTERM) \<in> set t1"
  proof (cases force)
    case True
    then show ?thesis using try_kill [of ev "- n" SIGKILL p]
      by (intro exI [of _ "[Kill (- n) SIGKILL]"]) simp
  next
    case False
    show ?thesis
    proof (cases "kill_throws ev (trace p) (- n) SIGTERM")
      case True
      with False show ?thesis
        by (intro exI [of _ "[Kill (- n) SIGTERM]"])
           (simp add: try_catch_def then_do_def process_kill_def skip_def emit_def)
    next
      case nt: False
      with False show ?thesis
        by (intro exI [of _ "[Kill (- n) SIGTERM, SetTimeout (KillTracked n) 1000]"])
           (simp add: try_catch_def then_do_def process_kill_def skip_def emit_def set_timeout_def)
    qed
  qed
  then obtain t1 where t1: "?body p = Inr (p\<lparr>trace := trace p @ t1\<rparr>)"
      "\<forall>e\<in>set t1. \<not> is_spawn e" "Kill (- n) (if force then SIGKILL else SIGTERM) \<in> set t1"
    by blast
  from Cons.IH [of "p\<lparr>trace := trace p @ t1\<rparr>"] obtain t2 where
    t2: "kill_tracked ev force ns (p\<lparr>trace := trace p @ t1\<rparr>) = Inr (p\<lparr>trace := trace p @ t1 @ t2\<rparr>)"
      "\<forall>e\<in>set t2. \<not> is_spawn e"
      "\<forall>n\<in>set ns. Kill (- n) (if force then SIGKILL else SIGTERM) \<in> set t2"
    by auto
  have "kill_tracked ev force (n # ns) p = Inr (p\<lparr>trace := trace p @ (t1 @ t2)\<rparr>)"
    using t1(1) t2(1) by (simp add: then_do_def)
  with t1 t2 show ?case
    by (intro exI [of _ "t1 @ t2"]) auto
qed

lemma killAllProcesses_result:
  "\<exists>t. killAllProcesses ev force p = Inr (p\<lparr>processIds := [], trace := trace p @ t\<rparr>)
       \<and> (\<forall>e\<in>set t. \<not> is_spawn e)
       \<and> (\<forall>n\<in>set (processIds p). Kill (- n) (if force then SIGKILL else SIGTERM) \<in> set t)
       \<and> (currentProcess p = None \<and> processIds p = [] \<longrightarrow> t = [])"
proof -
  obtain t1 where t1: "kill_current ev force p = Inr (p\<lparr>trace := trace p @ t1\<rparr>)"
      "\<forall>e\<in>set t1. \<not> is_spawn e" "currentProcess p = None \<longrightarrow> t1 = []"
    using kill_current_result by blast
  obtain t2 where t2: "kill_tracked ev force (processIds p) (p\<lparr>trace := trace p @ t1\<rparr>)
        = Inr (p\<lparr>trace := trace p @ t1 @ t2\<rparr>)"
      "\<forall>e\<in>set t2. \<not> is_spawn e"
      "\<forall>n\<in>set (processIds p). Kill (- n) (if force then SIGKILL else SIGTERM) \<in> set t2"
      "processIds p = [] \<longrightarrow> t2 = []"
    using kill_tracked_result [of ev force "processIds p" "p\<lparr>trace := trace p @ t1\<rparr>"] by auto
  have "killAllProcesses ev force p = Inr (p\<lparr>processIds := [], trace := trace p @ (t1 @ t2)\<rparr>)"
    using t1(1) t2(1) by (simp add: killAllProcesses_def then_do_def)
  with t1 t2 show ?thesis
    by (intro exI [of _ "t1 @ t2"]) auto
qed

lemma stop_result:
  "\<exists>t. stop ev p = Inr \<lparr>currentProcess = None, currentStation = None, processIds = [],
                        trace = trace p @ t\<rparr>
       \<and> (\<forall>e\<in>set t. \<not> is_spawn e)
       \<and> (\<forall>n\<in>set (processIds p). Kill (- n) SIGTERM \<in> set t)
       \<and> (currentProcess p = None \<and> processIds p = [] \<longrightarrow> t = [])"
proof -
  obtain t where t: "killAllProcesses ev False p = Inr (p\<lparr>processIds := [], trace := trace p @ t\<rparr>)"
      "\<forall>e\<in>set t. \<not> is_spawn e"
      "\<forall>n\<in>set (processIds p). Kill (- n) SIGTERM \<in> set t"
      "currentProcess p = None \<and> processIds p = [] \<longrightarrow> t = []"
    using killAllProcesses_result [of ev False p] by auto
  have "stop ev p = Inr \<lparr>currentProcess = None, currentStation = None, processIds = [],
                        trace = trace p @ t\<rparr>"
    using t(1) by (simp add: stop_def then_do_def)
  with t show ?thesis by blast
qed

section \<open>What a step keeps\<close>

lemma spawned_pids_append: "spawned_pids (a @ b) = spawned_pids a @ spawned_pids b"
  by (induction a rule: spawned_pids.induct) simp_all

lemma grows_refl: "grows p p []"
  by (simp add: grows_def)

lemma grows_trans: "grows p p' t \<Longrightarrow> grows p' p'' u \<Longrightarrow> grows p p'' (t @ u)"
  by (auto simp: grows_def spawned_pids_append)

lemma grows_trace_only: "grows p (p\<lparr>trace := trace p @ t\<rparr>) t"
  by (simp add: grows_def tracked_ok_def split: option.split)

lemma spawn_and_track_cases:
  "(spawn_result ev (trace p) b args = SpawnThrows
      \<and> spawn_and_track ev b args p = Inl (SpawnFailed, p\<lparr>trace := trace p @ [Spawn b args SpawnThrows]\<rparr>))
   \<or> (\<exists>q. spawn_result ev (trace p) b args = Spawned q
      \<and> spawn_and_track ev b args p =
          Inr (p\<lparr>currentProcess := Some \<lparr>pid = q, killed = False\<rparr>,
                 processIds := processIds p @ truthy_pid q,
                 trace := trace p @ [Spawn b args (Spawned q)]\<rparr>))"
  by (cases "spawn_result ev (trace p) b args")
     (auto simp: spawn_and_track_def emit_def truthy_pid_def Let_def split: option.splits)

lemma grows_spawned:
  "grows p (p\<lparr>currentProcess := Some \<lparr>pid = q, killed = False\<rparr>,
             processIds := processIds p @ truthy_pid q,
             trace := trace p @ [Spawn b args (Spawned q)]\<rparr>) [Spawn b args (Spawned q)]"
  by (cases q) (auto simp: grows_def tracked_ok_def truthy_pid_def)

lemma truthy_pid_spawned: "set (truthy_pid q) \<subseteq> set (spawned_pids [Spawn b a (Spawned q)])"
  by (cases q) (auto simp: truthy_pid_def)

lemma truthy_pid_length: "length (truthy_pid q) \<le> 1"
  by (cases q) (auto simp: truthy_pid_def)

lemma tryVLC_result:
  "\<exists>p' t. tryVLC ev station p = Inr p' \<and> grows p p' t \<and> vlc_spawns t = 1
       \<and> length (processIds p') \<le> Suc (length (processIds p))"
proof -
  let ?args = "vlc_args (url station)"
  from spawn_and_track_cases [of ev p Vlc ?args] show ?thesis
  proof (elim disjE conjE exE)
    assume a: "spawn_and_track ev Vlc ?args p = Inl (SpawnFailed, p\<lparr>trace := trace p @ [Spawn Vlc ?args SpawnThrows]\<rparr>)"
    let ?t = "[Spawn Vlc ?args SpawnThrows, Log FailedToStartVlc]"
    have "tryVLC ev station p = Inr (p\<lparr>trace := trace p @ ?t\<rparr>)"
      using a by (simp add: tryVLC_def try_catch_def console_log_def emit_def)
    moreover have "grows p (p\<lparr>trace := trace p @ ?t\<rparr>) ?t" by (rule grows_trace_only)
    ultimately show ?thesis by (intro exI [of _ "p\<lparr>trace := trace p @ ?t\<rparr>"] exI [of _ ?t]) simp
  next
    fix q
    let ?p' = "p\<lparr>currentProcess := Some \<lparr>pid = q, killed = False\<rparr>,
                 processIds := processIds p @ truthy_pid q,
                 trace := trace p @ [Spawn Vlc ?args (Spawned q)]\<rparr>"
    assume a: "spawn_and_track ev Vlc ?args p = Inr ?p'"
    have "tryVLC ev station p = Inr ?p'"
      using a by (simp add: tryVLC_def try_catch_def)
    moreover have "grows p ?p' [Spawn Vlc ?args (Spawned q)]" by (rule grows_spawned)
    moreover have "length (processIds ?p') \<le> Suc (length (processIds p))"
      by (simp add: truthy_pid_def split: option.split)
    ultimately show ?thesis
      by (intro exI [of _ ?p'] exI [of _ "[Spawn Vlc ?args (Spawned q)]"]) simp
  qed
qed

lemma handle_result:
  "\<exists>p' t. handle ev e p = Inr p' \<and> grows p p' t"
proof (cases e)
  case (MpvError station m)
  show ?thesis
  proof (cases "str_includes m ''ENOENT''")
    case True
    with MpvError show ?thesis using tryVLC_result [of ev station p] by auto
  next
    case False
    with MpvError have "handle ev e p = Inr (p\<lparr>trace := trace p @ [Log (PlaybackError m)]\<rparr>)"
      by (simp add: console_log_def emit_def)
    then show ?thesis using grows_trace_only by blast
  qed
next
  case (VlcError m)
  then have "handle ev e p = Inr (p\<lparr>trace := trace p @ [Log (if str_includes m ''ENOENT'' then NeitherFound else VlcPlaybackError m)]\<rparr>)"
    by (simp add: console_log_def emit_def)
  then show ?thesis using grows_trace_only by blast
next
  case (Exited code)
  then have "handle ev e p = Inr (p\<lparr>trace := trace p @ (case code of None \<Rightarrow> [] | Some c \<Rightarrow> if c \<noteq> 0 then [Log PlaybackStopped] else [])\<rparr>)"
    by (simp add: console_log_def emit_def split: option.split)
  then show ?thesis using grows_trace_only by blast
next
  case (TimerFired tm)
  show ?thesis
  proof (cases tm)
    case KillCurrent
    have "\<exists>t. handle ev (TimerFired KillCurrent) p = Inr (p\<lparr>trace := trace p @ t\<rparr>)"
    proof (cases "\<exists>cp n. currentProcess p = Some cp \<and> pid cp = Some n \<and> \<not> killed cp \<and> n \<noteq> 0")
      case True
      then obtain cp n where "currentProcess p = Some cp" "pid cp = Some n" "\<not> killed cp" "n \<noteq> 0"
        by blast
      then have "handle ev (TimerFired KillCurrent) p = Inr (p\<lparr>trace := trace p @ [Kill (- n) SIGKILL]\<rparr>)"
        using try_kill [of ev "- n" SIGKILL p] by simp
      then show ?thesis by blast
    next
      case False
      then have "handle ev (TimerFired KillCurrent) p = Inr (p\<lparr>trace := trace p @ []\<rparr>)"
        by (auto split: option.splits)
      then show ?thesis by blast
    qed
    with TimerFired KillCurrent show ?thesis using grows_trace_only by auto
  next
    case (KillTracked n)
    with TimerFired show ?thesis using try_kill [of ev "- n" SIGKILL p] grows_trace_only by auto
  qed
qed

lemma run_events_result:
  "\<exists>p' t. run_events ev evs p = Inr p' \<and> grows p p' t"
proof (induction evs arbitrary: p)
  case Nil
  show ?case using grows_refl by auto
next
  case (Cons e es)
  obtain p1 t1 where 1: "handle ev e p = Inr p1" "grows p p1 t1"
    using handle_result by blast
  obtain p2 t2 where 2: "run_events ev es p1 = Inr p2" "grows p1 p2 t2"
    using Cons.IH by blast
  have "run_events ev (e # es) p = Inr p2" using 1 2 by (simp add: then_do_def)
  with grows_trans [OF 1(2) 2(2)] show ?case by blast
qed

lemma play_end_result:
  "\<exists>p' t. play_end p = Inr p' \<and> grows p p' t"
proof -
  have "\<exists>t. play_end p = Inr (p\<lparr>trace := trace p @ t\<rparr>)"
  proof (cases "\<exists>cp. currentProcess p = Some cp \<and> \<not> killed cp")
    case True
    then have "play_end p = Inr (p\<lparr>trace := trace p @ [Log NowPlaying]\<rparr>)"
      by (auto simp: play_end_def console_log_def emit_def)
    then show ?thesis by blast
  next
    case False
    then have "play_end p = Inr (p\<lparr>trace := trace p @ []\<rparr>)"
      by (auto simp: play_end_def split: option.splits)
    then show ?thesis by blast
  qed
  then show ?thesis using grows_trace_only by metis
qed

lemma play_begin_result:
  "\<exists>w q t s r rest. play_begin ev station p = Inr (w, q)
       \<and> trace q = trace p @ t @ s
       \<and> (\<forall>e\<in>set t. \<not> is_spawn e)
       \<and> (\<forall>n\<in>set (processIds p). Kill (- n) SIGTERM \<in> set t)
       \<and> (currentProcess p = None \<and> processIds p = [] \<longrightarrow> t = [])
       \<and> s = Spawn Mpv (mpv_args (url station)) r # rest
       \<and> currentStation q = Some station
       \<and> set (processIds q) \<subseteq> set (spawned_pids s)
       \<and> length (processIds q) \<le> 1
       \<and> tracked_ok q"
proof -
  let ?args = "mpv_args (url station)"
  obtain t where t: "stop ev p = Inr \<lparr>currentProcess = None, currentStation = None, processIds = [],
                        trace = trace p @ t\<rparr>"
      "\<forall>e\<in>set t. \<not> is_spawn e"
      "\<forall>n\<in>set (processIds p). Kill (- n) SIGTERM \<in> set t"
      "currentProcess p = None \<and> processIds p = [] \<longrightarrow> t = []"
    using stop_result by blast
  let ?p1 = "\<lparr>currentProcess = None, currentStation = Some station, processIds = [],
              trace = trace p @ t\<rparr>"
  from spawn_and_track_cases [of ev ?p1 Mpv ?args] show ?thesis
  proof (elim disjE conjE exE)
    let ?s0 = "[Spawn Mpv ?args SpawnThrows, Log FailedToStart]"
    let ?p2 = "?p1\<lparr>trace := trace ?p1 @ ?s0\<rparr>"
    assume a: "spawn_and_track ev Mpv ?args ?p1 = Inl (SpawnFailed, ?p1\<lparr>trace := trace ?p1 @ [Spawn Mpv ?args SpawnThrows]\<rparr>)"
    obtain p3 t3 where 3: "tryVLC ev station ?p2 = Inr p3" "grows ?p2 p3 t3"
        "length (processIds p3) \<le> Suc (length (processIds ?p2))"
      using tryVLC_result by blast
    have b: "play_begin ev station p = Inr (False, p3)"
      using t(1) a 3(1) by (simp add: play_begin_def then_do_def console_log_def emit_def)
    have ok: "tracked_ok ?p2" by (simp add: tracked_ok_def)
    have c: "trace p3 = trace p @ t @ (?s0 @ t3)" "currentStation p3 = Some station"
        "set (processIds p3) \<subseteq> set (spawned_pids (?s0 @ t3))" "tracked_ok p3"
      using 3(2) ok by (auto simp: grows_def spawned_pids_append)
    have d: "length (processIds p3) \<le> 1" using 3(3) by simp
    show ?thesis
      apply (rule exI [of _ False], rule exI [of _ p3], rule exI [of _ t], rule exI [of _ "?s0 @ t3"], rule exI [of _ SpawnThrows], rule exI [of _ "Log FailedToStart # t3"])
      using b c d t(2,3,4) by simp
  next
    fix q
    let ?s = "[Spawn Mpv ?args (Spawned q)]"
    let ?p2 = "?p1\<lparr>currentProcess := Some \<lparr>pid = q, killed = False\<rparr>,
                 processIds := processIds ?p1 @ truthy_pid q,
                 trace := trace ?p1 @ ?s\<rparr>"
    assume a: "spawn_and_track ev Mpv ?args ?p1 = Inr ?p2"
    have b: "play_begin ev station p = Inr (True, ?p2)"
      using t(1) a by (simp add: play_begin_def)
    have c: "set (processIds ?p2) \<subseteq> set (spawned_pids ?s)" "length (processIds ?p2) \<le> 1"
      using truthy_pid_spawned [of q Mpv ?args] truthy_pid_length [of q] by simp_all
    have d: "tracked_ok ?p2" by (simp add: tracked_ok_def)
    show ?thesis
      apply (rule exI [of _ True], rule exI [of _ ?p2], rule exI [of _ t], rule exI [of _ ?s], rule exI [of _ "Spawned q"], rule exI [of _ "[]"])
      using b c d t(2,3,4) by simp
  qed
qed

lemma play_result:
  "\<exists>p' t s r rest. play ev station evs p = Inr p'
       \<and> trace p' = trace p @ t @ s
       \<and> (\<forall>e\<in>set t. \<not> is_spawn e)
       \<and> (\<forall>n\<in>set (processIds p). Kill (- n) SIGTERM \<in> set t)
       \<and> s = Spawn Mpv (mpv_args (url station)) r # rest
       \<and> currentStation p' = Some station
       \<and> set (processIds p') \<subseteq> set (spawned_pids s)
       \<and> tracked_ok p'"
proof -
  obtain w q t s r rest where b: "play_begin ev station p = Inr (w, q)"
      "trace q = trace p @ t @ s" "\<forall>e\<in>set t. \<not> is_spawn e"
      "\<forall>n\<in>set (processIds p). Kill (- n) SIGTERM \<in> set t"
      "s = Spawn Mpv (mpv_args (url station)) r # rest"
      "currentStation q = Some station" "set (processIds q) \<subseteq> set (spawned_pids s)"
      "tracked_ok q"
    using play_begin_result [of ev station p] by blast
  show ?thesis
  proof (cases w)
    case False
    with b(1) have "play ev station evs p = Inr q" by (simp add: play_def)
    with b show ?thesis by blast
  next
    case True
    obtain p1 t1 where 1: "run_events ev evs q = Inr p1" "grows q p1 t1"
      using run_events_result by blast
    obtain p2 t2 where 2: "play_end p1 = Inr p2" "grows p1 p2 t2"
      using play_end_result by blast
    have g: "grows q p2 (t1 @ t2)" using grows_trans [OF 1(2) 2(2)] .
    have "play ev station evs p = Inr p2"
      using True b(1) 1(1) 2(1) by (simp add: play_def then_do_def)
    moreover have "trace p2 = trace p @ t @ (s @ t1 @ t2)" "currentStation p2 = Some station"
        "set (processIds p2) \<subseteq> set (spawned_pids (s @ t1 @ t2))" "tracked_ok p2"
      using g b(2,6,7,8) by (auto simp: grows_def spawned_pids_append)
    ultimately have u: "play ev station evs p = Inr p2" "trace p2 = trace p @ t @ (s @ t1 @ t2)" "currentStation p2 = Some station"
        "set (processIds p2) \<subseteq> set (spawned_pids (s @ t1 @ t2))" "tracked_ok p2" by blast+
    show ?thesis
      apply (rule exI [of _ p2], rule exI [of _ t], rule exI [of _ "s @ t1 @ t2"], rule exI [of _ r], rule exI [of _ "rest @ t1 @ t2"])
      using u b(3,4,5) by simp
  qed
qed

section \<open>The sweep and the forced stop\<close>

lemma kill_parsed_Some: "kill_parsed ev (Some n) = process_kill ev n SIGKILL"
  by (rule ext) (simp add: kill_parsed_def)

lemma kill_lines_result:
  "\<exists>t. kill_lines ev ls p = Inr (p\<lparr>trace := trace p @ t\<rparr>) \<and> (\<forall>e\<in>set t. is_sweep e)"
proof (induction ls arbitrary: p)
  case Nil
  show ?case by (rule exI [of _ "[]"]) simp
next
  case (Cons l ls)
  let ?body = "if l \<noteq> [] then try_catch (kill_parsed ev (parseInt l)) (\<lambda>e. skip) else skip"
  have "\<exists>t1. ?body p = Inr (p\<lparr>trace := trace p @ t1\<rparr>) \<and> (\<forall>e\<in>set t1. is_sweep e)"
  proof (cases "l \<noteq> [] \<and> parseInt l \<noteq> None")
    case True
    then obtain n where "parseInt l = Some n" by blast
    with True have "?body p = Inr (p\<lparr>trace := trace p @ [Kill n SIGKILL]\<rparr>)"
      using try_kill [of ev n SIGKILL p] by (simp add: kill_parsed_Some)
    then show ?thesis by (intro exI [of _ "[Kill n SIGKILL]"]) simp
  next
    case False
    then have "?body p = Inr (p\<lparr>trace := trace p @ []\<rparr>)"
      by (auto simp: kill_parsed_def try_catch_def skip_def)
    then show ?thesis by (intro exI [of _ "[]"]) simp
  qed
  then obtain t1 where t1: "?body p = Inr (p\<lparr>trace := trace p @ t1\<rparr>)" "\<forall>e\<in>set t1. is_sweep e"
    by blast
  from Cons.IH [of "p\<lparr>trace := trace p @ t1\<rparr>"] obtain t2 where
    t2: "kill_lines ev ls (p\<lparr>trace := trace p @ t1\<rparr>) = Inr (p\<lparr>trace := trace p @ t1 @ t2\<rparr>)"
      "\<forall>e\<in>set t2. is_sweep e"
    by auto
  have "kill_lines ev (l # ls) p = Inr (p\<lparr>trace := trace p @ (t1 @ t2)\<rparr>)"
    using t1(1) t2(1) by (simp add: then_do_def)
  with t1 t2 show ?case by (intro exI [of _ "t1 @ t2"]) auto
qed

lemma try_pgrep_result:
  "\<exists>t. try_catch (run_pgrep ev cmd) (\<lambda>e. skip) p = Inr (p\<lparr>trace := trace p @ t\<rparr>)
       \<and> (\<forall>e\<in>set t. is_sweep e)"
proof (cases "exec_sync ev (trace p) cmd")
  case None
  then have "try_catch (run_pgrep ev cmd) (\<lambda>e. skip) p = Inr (p\<lparr>trace := trace p @ [Exec cmd]\<rparr>)"
    by (simp add: run_pgrep_def try_catch_def skip_def emit_def)
  then show ?thesis by (intro exI [of _ "[Exec cmd]"]) simp
next
  case (Some out)
  obtain t where t: "kill_lines ev (split_on (CHR 0x0A) (trim out)) (p\<lparr>trace := trace p @ [Exec cmd]\<rparr>)
      = Inr (p\<lparr>trace := trace p @ [Exec cmd] @ t\<rparr>)" "\<forall>e\<in>set t. is_sweep e"
    using kill_lines_result [of ev "split_on (CHR 0x0A) (trim out)" "p\<lparr>trace := trace p @ [Exec cmd]\<rparr>"]
    by auto
  have "try_catch (run_pgrep ev cmd) (\<lambda>e. skip) p = Inr (p\<lparr>trace := trace p @ (Exec cmd # t)\<rparr>)"
    using Some t(1) by (simp add: run_pgrep_def try_catch_def emit_def)
  with t(2) show ?thesis by (intro exI [of _ "Exec cmd # t"]) simp
qed

lemma killOrphanedProcesses_result:
  "\<exists>t. killOrphanedProcesses ev p = Inr (p\<lparr>trace := trace p @ t\<rparr>) \<and> (\<forall>e\<in>set t. is_sweep e)"
proof -
  obtain t1 where t1: "try_catch (run_pgrep ev ''pgrep mpv'') (\<lambda>e. skip) p = Inr (p\<lparr>trace := trace p @ t1\<rparr>)"
      "\<forall>e\<in>set t1. is_sweep e"
    using try_pgrep_result by blast
  obtain t2 where t2: "try_catch (run_pgrep ev ''pgrep vlc'') (\<lambda>e. skip) (p\<lparr>trace := trace p @ t1\<rparr>)
       = Inr (p\<lparr>trace := trace p @ t1 @ t2\<rparr>)" "\<forall>e\<in>set t2. is_sweep e"
    using try_pgrep_result [of ev "''pgrep vlc''" "p\<lparr>trace := trace p @ t1\<rparr>"] by auto
  have "killOrphanedProcesses ev p = Inr (p\<lparr>trace := trace p @ (t1 @ t2)\<rparr>)"
    using t1(1) t2(1) by (simp add: killOrphanedProcesses_def try_catch_def then_do_def)
  with t1 t2 show ?thesis by (intro exI [of _ "t1 @ t2"]) auto
qed

lemma forceStop_result:
  "\<exists>t u. forceStop ev p = Inr \<lparr>currentProcess = None, currentStation = None, processIds = [],
                        trace = trace p @ t @ u\<rparr>
       \<and> killOrphanedProcesses ev (p\<lparr>processIds := [], trace := trace p @ t\<rparr>)
           = Inr (p\<lparr>processIds := [], trace := trace p @ t @ u\<rparr>)
       \<and> (\<forall>n\<in>set (processIds p). Kill (- n) SIGKILL \<in> set t)
       \<and> (currentProcess p = None \<and> processIds p = [] \<longrightarrow> t = [])"
proof -
  obtain t where t: "killAllProcesses ev True p = Inr (p\<lparr>processIds := [], trace := trace p @ t\<rparr>)"
      "\<forall>n\<in>set (processIds p). Kill (- n) SIGKILL \<in> set t"
      "currentProcess p = None \<and> processIds p = [] \<longrightarrow> t = []"
    using killAllProcesses_result [of ev True p] by auto
  let ?p1 = "p\<lparr>processIds := [], trace := trace p @ t\<rparr>"
  obtain u where u: "killOrphanedProcesses ev ?p1 = Inr (?p1\<lparr>trace := trace ?p1 @ u\<rparr>)"
    using killOrphanedProcesses_result by blast
  have "forceStop ev p = Inr \<lparr>currentProcess = None, currentStation = None, processIds = [],
                        trace = trace p @ t @ u\<rparr>"
    using t(1) u by (simp add: forceStop_def then_do_def)
  moreover have "killOrphanedProcesses ev ?p1 = Inr (p\<lparr>processIds := [], trace := trace p @ t @ u\<rparr>)"
    using u by simp
  ultimately show ?thesis using t(2,3) by blast
qed

section \<open>Reachable states\<close>

lemma reachable_tracked_ok: "reachable p \<Longrightarrow> tracked_ok p"
proof (induction rule: reachable.induct)
  case fresh
  show ?case by (simp add: tracked_ok_def initial_def)
next
  case (after_stop p ev p')
  then show ?case using stop_result [of ev p] by (auto simp: tracked_ok_def)
next
  case (after_forceStop p ev p')
  then show ?case using forceStop_result [of ev p] by (auto simp: tracked_ok_def)
next
  case (after_play_begin p ev station w p')
  then show ?case using play_begin_result [of ev station p] by auto
next
  case (after_play_end p p')
  then show ?case using play_end_result [of p] by (auto simp: grows_def)
next
  case (after_event p ev e p')
  then show ?case using handle_result [of ev e p] by (auto simp: grows_def)
qed

lemma idle_state: "reachable p \<Longrightarrow> \<not> isPlaying p \<Longrightarrow> currentProcess p = None \<and> processIds p = []"
  using reachable_tracked_ok [of p]
  by (auto simp: tracked_ok_def isPlaying_def split: option.splits)

lemma isPlaying_iff_handle: "reachable p \<Longrightarrow> isPlaying p = (currentProcess p \<noteq> None)"
  using reachable_tracked_ok [of p]
  by (auto simp: tracked_ok_def isPlaying_def split: option.splits)

lemma failed_start_reachable: "reachable failed_start"
proof -
  have "play_begin env_broken test_fm initial = Inr (False, failed_start)"
    by (simp add: player_defs env_broken_def failed_start_def)
  with reachable.fresh show ?thesis by (rule reachable.after_play_begin)
qed

lemma play_test_fm: "play env_ok test_fm [] initial = Inr playing_4242"
  by (simp add: player_defs env_ok_def playing_4242_def)

lemma play_jazz_fm: "play env_ok jazz_fm [] playing_4242 = Inr switched"
  by (simp add: player_defs env_ok_def playing_4242_def switched_def)

section \<open>Properties of the player\<close>

text \<open>
  C5. For every station with a non-empty stream URL, from any state and in any
  environment, \<open>play\<close> returns (whatever the event loop delivers while it waits) and
  \<open>getCurrentStation\<close> then gives that station.
\<close>

theorem play_then_getCurrentStation:
  assumes "url station = Some u" and "u \<noteq> []"
  shows "\<exists>p'. play ev station evs p = Inr p' \<and> getCurrentStation p' = Some station"
  using play_result [of ev station evs p] by (auto simp: getCurrentStation_def)

theorem play_then_getCurrentStation_witness:
  "url test_fm = Some ''http://example.invalid/stream''
   \<and> (\<exists>p'. play env_ok test_fm [] initial = Inr p' \<and> getCurrentStation p' = Some test_fm)"
  using play_then_getCurrentStation [of test_fm "''http://example.invalid/stream''" env_ok "[]" initial]
  by (simp add: test_fm_def)

text \<open>
  C9. \<open>play\<close> records the station whatever happens to the launch: in every environment
  (so also when \<open>spawn\<close> throws for both backends) and for every list of events
  (so also when an \<open>error\<close> event of any kind fires), the station is current when the
  synchronous part of \<open>play\<close> is done, when \<open>play\<close> returns, and after any further
  events; only \<open>play\<close>, \<open>stop\<close> and \<open>forceStop\<close> assign the field, and in \<open>play_begin\<close>
  the assignment stands before the first \<open>spawn\<close>.
\<close>

theorem play_records_station:
  "\<exists>w q p' p''. play_begin ev s p = Inr (w, q) \<and> getCurrentStation q = Some s
      \<and> play ev s evs p = Inr p' \<and> getCurrentStation p' = Some s
      \<and> run_events ev' evs' p' = Inr p'' \<and> getCurrentStation p'' = Some s"
proof -
  obtain w q where 1: "play_begin ev s p = Inr (w, q)" "currentStation q = Some s"
    using play_begin_result [of ev s p] by blast
  obtain p' where 2: "play ev s evs p = Inr p'" "currentStation p' = Some s"
    using play_result [of ev s evs p] by blast
  obtain p'' t where 3: "run_events ev' evs' p' = Inr p''" "grows p' p'' t"
    using run_events_result by blast
  from 3(2) 2(2) have "currentStation p'' = Some s" by (simp add: grows_def)
  with 1 2 3(1) show ?thesis by (auto simp: getCurrentStation_def)
qed

theorem play_records_station_witness:
  "play_begin env_broken test_fm initial = Inr (False, failed_start)
   \<and> getCurrentStation failed_start = Some test_fm
   \<and> (\<exists>p''. run_events env_broken [VlcError ''spawn vlc ENOENT'', Exited (Some 1)] failed_start = Inr p''
         \<and> getCurrentStation p'' = Some test_fm)"
proof -
  have b: "play_begin env_broken test_fm initial = Inr (False, failed_start)"
    by (simp add: player_defs env_broken_def failed_start_def)
  then have p: "play env_broken test_fm [] initial = Inr failed_start"
    by (simp add: play_def)
  from play_records_station [of env_broken test_fm initial "[]" env_broken
      "[VlcError ''spawn vlc ENOENT'', Exited (Some 1)]"] b p
  show ?thesis by auto
qed

text \<open>
  C7. In a state the player can reach in which \<open>isPlaying\<close> is false, \<open>stop\<close> returns
  without an exception and adds nothing to the trace: no \<open>spawn\<close>, no signal, no timer.
  \<open>isPlaying\<close> is false afterwards, and the handle and the tracked identifiers are as
  before. (The station, which a failed \<open>play\<close> leaves set, is cleared.)
\<close>

theorem stop_idle_noop:
  assumes "reachable p" and "\<not> isPlaying p"
  shows "\<exists>p'. stop ev p = Inr p' \<and> trace p' = trace p \<and> \<not> isPlaying p'
           \<and> currentProcess p' = currentProcess p \<and> processIds p' = processIds p"
proof -
  from idle_state [OF assms] have i: "currentProcess p = None" "processIds p = []" by simp_all
  with stop_result [of ev p] show ?thesis by (auto simp: isPlaying_def)
qed

theorem stop_idle_noop_witness:
  "reachable failed_start \<and> \<not> isPlaying failed_start
   \<and> (\<exists>p'. stop env_absent failed_start = Inr p' \<and> trace p' = trace failed_start \<and> \<not> isPlaying p')"
proof -
  have n: "\<not> isPlaying failed_start" by (simp add: isPlaying_def failed_start_def)
  from stop_idle_noop [OF failed_start_reachable n, of env_absent] failed_start_reachable n
  show ?thesis by blast
qed

text \<open>
  C6. \<open>forceStop\<close> returns without an exception from every state and in every
  environment, also one in which every \<open>process.kill\<close> and every \<open>execSync\<close> throws;
  each tracked identifier still gets its forced kill. Afterwards nothing is playing and
  nothing is tracked. A second \<open>forceStop\<close> right after returns as well, and is the sweep
  alone. In a reachable state in which nothing is playing, \<open>forceStop\<close> is the sweep
  followed by the clearing of the station.
\<close>

theorem forceStop_never_raises:
  "\<exists>p' p''. forceStop ev p = Inr p'
      \<and> \<not> isPlaying p' \<and> getCurrentStation p' = None \<and> processIds p' = []
      \<and> (\<forall>n\<in>set (processIds p). Kill (- n) SIGKILL \<in> set (effects_since p p'))
      \<and> forceStop ev' p' = Inr p'' \<and> killOrphanedProcesses ev' p' = Inr p''
      \<and> (reachable p \<and> \<not> isPlaying p \<longrightarrow>
           (\<exists>q. killOrphanedProcesses ev p = Inr q \<and> p' = q\<lparr>currentStation := None\<rparr>))"
proof -
  obtain t u where 1: "forceStop ev p = Inr \<lparr>currentProcess = None, currentStation = None, processIds = [],
                        trace = trace p @ t @ u\<rparr>"
      "killOrphanedProcesses ev (p\<lparr>processIds := [], trace := trace p @ t\<rparr>)
           = Inr (p\<lparr>processIds := [], trace := trace p @ t @ u\<rparr>)"
      "\<forall>n\<in>set (processIds p). Kill (- n) SIGKILL \<in> set t"
      "currentProcess p = None \<and> processIds p = [] \<longrightarrow> t = []"
    using forceStop_result [of ev p] by blast
  let ?p' = "\<lparr>currentProcess = None, currentStation = None, processIds = [],
              trace = trace p @ t @ u\<rparr>"
  obtain t' u' where 2: "forceStop ev' ?p' = Inr \<lparr>currentProcess = None, currentStation = None, processIds = [],
                        trace = trace ?p' @ t' @ u'\<rparr>"
      "killOrphanedProcesses ev' (?p'\<lparr>processIds := [], trace := trace ?p' @ t'\<rparr>)
           = Inr (?p'\<lparr>processIds := [], trace := trace ?p' @ t' @ u'\<rparr>)"
      "currentProcess ?p' = None \<and> processIds ?p' = [] \<longrightarrow> t' = []"
    using forceStop_result [of ev' ?p'] by blast
  have t': "t' = []" using 2(3) by simp
  let ?p'' = "\<lparr>currentProcess = None, currentStation = None, processIds = [],
              trace = trace ?p' @ u'\<rparr>"
  have a: "forceStop ev' ?p' = Inr ?p''" using 2(1) t' by simp
  have b: "killOrphanedProcesses ev' ?p' = Inr ?p''" using 2(2) t' by simp
  have c: "\<forall>n\<in>set (processIds p). Kill (- n) SIGKILL \<in> set (effects_since p ?p')"
    using 1(3) by (simp add: effects_since_def)
  have d: "reachable p \<and> \<not> isPlaying p \<longrightarrow>
           (\<exists>q. killOrphanedProcesses ev p = Inr q \<and> ?p' = q\<lparr>currentStation := None\<rparr>)"
  proof
    assume "reachable p \<and> \<not> isPlaying p"
    then have i: "currentProcess p = None" "processIds p = []" using idle_state by blast+
    with 1(4) have tn: "t = []" by simp
    have pe: "p\<lparr>processIds := []\<rparr> = p" using i(2) by (cases p) simp
    have "killOrphanedProcesses ev ((p\<lparr>processIds := []\<rparr>)\<lparr>trace := trace p @ t\<rparr>)
           = Inr ((p\<lparr>processIds := []\<rparr>)\<lparr>trace := trace p @ t @ u\<rparr>)"
      using 1(2) by simp
    then have "killOrphanedProcesses ev (p\<lparr>trace := trace p @ t\<rparr>)
           = Inr (p\<lparr>trace := trace p @ t @ u\<rparr>)"
      by (simp only: pe)
    then have "killOrphanedProcesses ev p = Inr (p\<lparr>trace := trace p @ u\<rparr>)"
      using tn by simp
    moreover have "?p' = (p\<lparr>trace := trace p @ u\<rparr>)\<lparr>currentStation := None\<rparr>"
      using i tn by simp
    ultimately show "\<exists>q. killOrphanedProcesses ev p = Inr q \<and> ?p' = q\<lparr>currentStation := None\<rparr>"
      by blast
  qed
  have e: "\<not> isPlaying ?p'" "getCurrentStation ?p' = None" "processIds ?p' = []"
    by (simp_all add: isPlaying_def getCurrentStation_def)
  show ?thesis
    apply (rule exI [of _ ?p'], rule exI [of _ ?p''])
    using 1(1) e c a b d by (intro conjI) assumption+
qed

theorem forceStop_never_raises_witness:
  "(\<exists>p' p''. forceStop env_broken playing_4242 = Inr p' \<and> \<not> isPlaying p'
        \<and> Kill (- 4242) SIGKILL \<in> set (effects_since playing_4242 p')
        \<and> forceStop env_broken p' = Inr p'')
   \<and> reachable failed_start \<and> \<not> isPlaying failed_start
   \<and> (\<exists>q. killOrphanedProcesses env_broken failed_start = Inr q
          \<and> forceStop env_broken failed_start = Inr (q\<lparr>currentStation := None\<rparr>))"
proof -
  have n: "\<not> isPlaying failed_start" by (simp add: isPlaying_def failed_start_def)
  have i: "4242 \<in> set (processIds playing_4242)" by (simp add: playing_4242_def)
  from forceStop_never_raises [of env_broken playing_4242 env_broken] i
  have a: "\<exists>p' p''. forceStop env_broken playing_4242 = Inr p' \<and> \<not> isPlaying p'
        \<and> Kill (- 4242) SIGKILL \<in> set (effects_since playing_4242 p')
        \<and> forceStop env_broken p' = Inr p''"
    by blast
  from forceStop_never_raises [of env_broken failed_start env_broken] failed_start_reachable n
  have b: "\<exists>q. killOrphanedProcesses env_broken failed_start = Inr q
          \<and> forceStop env_broken failed_start = Inr (q\<lparr>currentStation := None\<rparr>)"
    by blast
  from a failed_start_reachable n b show ?thesis by (intro conjI) assumption+
qed

section \<open>Switching stations\<close>

lemma effects_since_append: "trace p' = trace p @ t \<Longrightarrow> effects_since p p' = t"
  by (simp add: effects_since_def)

lemma takeWhile_before_spawn:
  "\<forall>e\<in>set t. \<not> is_spawn e \<Longrightarrow> takeWhile (\<lambda>e. \<not> is_spawn e) (t @ Spawn b a r # rest) = t"
  by (simp add: takeWhile_append2)

text \<open>
  The timer that the \<open>stop\<close> inside \<open>play\<close> sets for the old handle reads
  \<open>this.currentProcess\<close> when it fires, which by then is the new handle: after the switch
  from the first station to the second, the callback sends the forced kill to the group of
  the second station's subprocess.
\<close>

lemma deferred_kill_reads_new_handle:
  "SetTimeout KillCurrent 1000 \<in> set (effects_since playing_4242 switched)
   \<and> handle env_ok (TimerFired KillCurrent) switched =
       Inr (switched\<lparr>trace := trace switched @ [Kill (- 4248) SIGKILL]\<rparr>)"
  by (simp add: effects_since_def playing_4242_def switched_def try_catch_def process_kill_def
      env_ok_def emit_def)

text \<open>
  C4. \<open>play a\<close> followed by \<open>play b\<close>, from any state, in any environments and with any
  events in between: both calls return; \<open>getCurrentStation\<close> gives \<open>b\<close>; every identifier
  tracked after \<open>play a\<close> was sent the termination signal (to its process group) in the
  second call before that call's first \<open>spawn\<close>; the identifiers tracked after \<open>play b\<close>
  all come from the launches of the second call, so none of the first call's is among
  them unless the operating system hands one out again; and when the synchronous part of
  \<open>play b\<close> is done at most one identifier is tracked.
\<close>

theorem play_replaces_previous:
  "\<exists>p1 p2. play ev a evs p0 = Inr p1 \<and> play ev' b evs' p1 = Inr p2
      \<and> getCurrentStation p2 = Some b
      \<and> trace p2 = trace p1 @ effects_since p1 p2
      \<and> (\<forall>n\<in>set (processIds p1).
            Kill (- n) SIGTERM \<in> set (takeWhile (\<lambda>e. \<not> is_spawn e) (effects_since p1 p2)))
      \<and> set (processIds p2) \<subseteq> set (spawned_pids (effects_since p1 p2))
      \<and> (set (spawned_pids (effects_since p1 p2)) \<inter> set (processIds p1) = {}
            \<longrightarrow> set (processIds p2) \<inter> set (processIds p1) = {})
      \<and> (\<exists>w q. play_begin ev' b p1 = Inr (w, q) \<and> length (processIds q) \<le> 1)"
proof -
  obtain p1 where 1: "play ev a evs p0 = Inr p1"
    using play_result [of ev a evs p0] by blast
  obtain p2 t s r rest where 2: "play ev' b evs' p1 = Inr p2"
      "trace p2 = trace p1 @ t @ s" "\<forall>e\<in>set t. \<not> is_spawn e"
      "\<forall>n\<in>set (processIds p1). Kill (- n) SIGTERM \<in> set t"
      "s = Spawn Mpv (mpv_args (url b)) r # rest"
      "currentStation p2 = Some b" "set (processIds p2) \<subseteq> set (spawned_pids s)"
    using play_result [of ev' b evs' p1] by blast
  have e: "effects_since p1 p2 = t @ s" using 2(2) by (simp add: effects_since_def)
  have tw: "takeWhile (\<lambda>e. \<not> is_spawn e) (effects_since p1 p2) = t"
    using takeWhile_before_spawn [OF 2(3)] e 2(5) by simp
  have sub: "set (processIds p2) \<subseteq> set (spawned_pids (effects_since p1 p2))"
    using 2(7) e by (auto simp: spawned_pids_append)
  obtain w q where 3: "play_begin ev' b p1 = Inr (w, q)" "length (processIds q) \<le> 1"
    using play_begin_result [of ev' b p1] by blast
  have c1: "getCurrentStation p2 = Some b" using 2(6) by (simp add: getCurrentStation_def)
  have c2: "trace p2 = trace p1 @ effects_since p1 p2" using 2(2) e by simp
  have c3: "\<forall>n\<in>set (processIds p1).
            Kill (- n) SIGTERM \<in> set (takeWhile (\<lambda>e. \<not> is_spawn e) (effects_since p1 p2))"
    using 2(4) tw by simp
  have c4: "set (spawned_pids (effects_since p1 p2)) \<inter> set (processIds p1) = {}
            \<longrightarrow> set (processIds p2) \<inter> set (processIds p1) = {}"
    using sub by blast
  have c5: "\<exists>w q. play_begin ev' b p1 = Inr (w, q) \<and> length (processIds q) \<le> 1"
    using 3 by blast
  show ?thesis
    apply (rule exI [of _ p1], rule exI [of _ p2])
    using 1 2(1) c1 c2 c3 sub c4 c5 by (intro conjI) assumption+
qed

theorem play_replaces_previous_witness:
  "play env_ok test_fm [] initial = Inr playing_4242
   \<and> play env_ok jazz_fm [] playing_4242 = Inr switched
   \<and> processIds playing_4242 = [4242]
   \<and> set (spawned_pids (effects_since playing_4242 switched)) \<inter> set (processIds playing_4242) = {}
   \<and> set (processIds switched) \<inter> set (processIds playing_4242) = {}
   \<and> Kill (- 4242) SIGTERM \<in> set (takeWhile (\<lambda>e. \<not> is_spawn e) (effects_since playing_4242 switched))
   \<and> getCurrentStation switched = Some jazz_fm"
proof -
  have f: "set (spawned_pids (effects_since playing_4242 switched)) \<inter> set (processIds playing_4242) = {}"
    by (simp add: effects_since_def playing_4242_def switched_def)
  have i: "processIds playing_4242 = [4242]" by (simp add: playing_4242_def)
  from play_replaces_previous [of env_ok test_fm "[]" initial env_ok jazz_fm "[]"]
  obtain p1 p2 where w: "play env_ok test_fm [] initial = Inr p1" "play env_ok jazz_fm [] p1 = Inr p2"
      "getCurrentStation p2 = Some jazz_fm"
      "\<forall>n\<in>set (processIds p1).
            Kill (- n) SIGTERM \<in> set (takeWhile (\<lambda>e. \<not> is_spawn e) (effects_since p1 p2))"
      "set (spawned_pids (effects_since p1 p2)) \<inter> set (processIds p1) = {}
            \<longrightarrow> set (processIds p2) \<inter> set (processIds p1) = {}"
    by blast
  from w(1) play_test_fm have p1: "p1 = playing_4242" by simp
  from w(2) p1 play_jazz_fm have p2: "p2 = switched" by simp
  from w(4) p1 p2 i have k: "Kill (- 4242) SIGTERM \<in> set (takeWhile (\<lambda>e. \<not> is_spawn e) (effects_since playing_4242 switched))"
    by simp
  from w(5) p1 p2 f have d: "set (processIds switched) \<inter> set (processIds playing_4242) = {}"
    by simp
  from w(3) p2 have g: "getCurrentStation switched = Some jazz_fm" by simp
  from play_test_fm play_jazz_fm i f d k g show ?thesis by (intro conjI) assumption+
qed

section \<open>Where the player reports playback that has ended\<close>

text \<open>
  An \<open>exit\<close> event changes neither the handle nor \<open>isPlaying\<close>; an \<open>error\<close> event of the
  primary backend that names \<open>ENOENT\<close> launches the secondary backend exactly once, and an
  \<open>error\<close> event of the secondary backend launches nothing and only writes a message, the
  install hint when it names \<open>ENOENT\<close>.
\<close>

lemma exit_keeps_isPlaying:
  "\<exists>p'. handle ev (Exited code) p = Inr p' \<and> isPlaying p' = isPlaying p
     \<and> currentProcess p' = currentProcess p"
  by (cases code) (auto simp: console_log_def emit_def isPlaying_def)

lemma mpv_enoent_one_fallback:
  "str_includes m ''ENOENT'' \<Longrightarrow>
     \<exists>p' t. handle ev (MpvError station m) p = Inr p' \<and> trace p' = trace p @ t \<and> vlc_spawns t = 1"
  using tryVLC_result [of ev station p] by (auto simp: grows_def)

lemma vlc_error_no_spawn:
  "handle ev (VlcError m) p =
     Inr (p\<lparr>trace := trace p @
            [Log (if str_includes m ''ENOENT'' then NeitherFound else VlcPlaybackError m)]\<rparr>)"
  by (simp add: console_log_def emit_def)

text \<open>
  C1. The scenario of the claim, run on the code: \<open>play\<close> of the station Test FM, whose
  subprocess exits with code 1 while \<open>play\<close> waits. The stopped notice is written, no
  exception is raised, and \<open>isPlaying\<close> is true afterwards (the claim says false): the
  \<open>exit\<close> handler only writes the notice, and nothing sets the handle's \<open>killed\<close> flag.
\<close>

theorem isPlaying_after_exit:
  "play env_ok test_fm [Exited (Some 1)] initial =
     Inr \<lparr> currentProcess = Some \<lparr>pid = Some 4242, killed = False\<rparr>,
           currentStation = Some test_fm,
           processIds = [4242],
           trace = [Spawn Mpv (mpv_args (url test_fm)) (Spawned (Some 4242)),
                    Log PlaybackStopped, Log NowPlaying] \<rparr>
   \<and> isPlaying \<lparr> currentProcess = Some \<lparr>pid = Some 4242, killed = False\<rparr>,
           currentStation = Some test_fm,
           processIds = [4242],
           trace = [Spawn Mpv (mpv_args (url test_fm)) (Spawned (Some 4242)),
                    Log PlaybackStopped, Log NowPlaying] \<rparr>"
  by (simp add: player_defs env_ok_def)

text \<open>
  C3. Neither backend is installed: the primary backend's \<open>error\<close> event names \<open>ENOENT\<close>,
  the secondary backend is launched once, its \<open>error\<close> event names \<open>ENOENT\<close> too. There is
  exactly one launch of the secondary backend and the install hint is written, as the claim
  says; but the handle of the failed launch stays current, so \<open>isPlaying\<close> is true
  afterwards (the claim says false), and \<open>play\<close> goes on to announce playback.
\<close>

theorem both_absent_still_playing:
  "play env_absent test_fm [MpvError test_fm ''spawn mpv ENOENT'', VlcError ''spawn vlc ENOENT''] initial =
     Inr \<lparr> currentProcess = Some \<lparr>pid = None, killed = False\<rparr>,
           currentStation = Some test_fm,
           processIds = [],
           trace = [Spawn Mpv (mpv_args (url test_fm)) (Spawned None),
                    Spawn Vlc (vlc_args (url test_fm)) (Spawned None),
                    Log NeitherFound, Log NowPlaying] \<rparr>
   \<and> isPlaying \<lparr> currentProcess = Some \<lparr>pid = None, killed = False\<rparr>,
           currentStation = Some test_fm,
           processIds = [],
           trace = [Spawn Mpv (mpv_args (url test_fm)) (Spawned None),
                    Spawn Vlc (vlc_args (url test_fm)) (Spawned None),
                    Log NeitherFound, Log NowPlaying] \<rparr>"
  by (simp add: player_defs env_absent_def)

end
